theory Spec2Isabelle
  imports Main
begin

section \<open>The path tree (DiffTreeModel::Node)\<close>

text \<open>
  A \<^verbatim>\<open>DiffTreeModel::Node\<close> has a name (\<^verbatim>\<open>mName\<close>), the list of the children it owns
  (\<^verbatim>\<open>mChildren\<close>, in order of insertion) and a non-owning pointer to its parent
  (\<^verbatim>\<open>mParent\<close>). The owned tree is the datatype below. A pointer to a node
  (\<^verbatim>\<open>Node *\<close>) is the position of the node in the tree that \<^verbatim>\<open>mRoot\<close> owns: the list of
  rows that leads to it, the innermost row first, so that the tail of a position is the
  position of the parent and \<open>[]\<close> is the root. \<open>None\<close> is the null pointer. Two pointers
  are equal exactly when they are the same position, as two C++ pointers into one tree.

  Every operation that dereferences a pointer, or indexes a list, returns an option:
  \<open>None\<close> stands for the execution that does not return normally (a null or dangling
  pointer is dereferenced, or \<^verbatim>\<open>QList::operator[]\<close> is used out of range, which Qt
  answers with a failed assertion and otherwise leaves undefined).
\<close>

datatype Node = Node (mName: string) (mChildren: "Node list")

text \<open>
  The loop \<^verbatim>\<open>for (auto c: mChildren) if (c->name() == s) ...\<close> of \<^verbatim>\<open>addChild\<close> stops at
  the first child of that name: \<open>findChild\<close> is the row of that child.
\<close>

fun findChild :: "string \<Rightarrow> Node list \<Rightarrow> nat option" where
  "findChild s [] = None"
| "findChild s (c # cs) =
     (if mName c = s then Some 0 else map_option Suc (findChild s cs))"

text \<open>
  \<^verbatim>\<open>Node::addChild(pathPart, indexFirstDifferent)\<close>. The source reads
  \<^verbatim>\<open>pathPart[indexFirstDifferent]\<close> in the comparison of the loop when there is a child,
  and in \<^verbatim>\<open>new Node(pathPart[indexFirstDifferent], this)\<close> when there is none or none
  matches: in both cases an index past the end of \<^verbatim>\<open>pathPart\<close> is an out-of-range read,
  the first branch below. When a child of that name exists the source recurses into it
  with the next index, without a test; when it creates the node it recurses only if
  \<^verbatim>\<open>indexFirstDifferent + 1 < pathPart.length()\<close>, and appends the new node afterwards.
  The node is updated in place in the source; here the updated node is returned.
\<close>

function addChild :: "Node \<Rightarrow> string list \<Rightarrow> nat \<Rightarrow> Node option" where
  "addChild n pathPart i =
     (if length pathPart \<le> i then None
      else case findChild (pathPart ! i) (mChildren n) of
        Some k \<Rightarrow>
          (case addChild (mChildren n ! k) pathPart (i + 1) of
             None \<Rightarrow> None
           | Some c \<Rightarrow> Some (Node (mName n) ((mChildren n)[k := c])))
      | None \<Rightarrow>
          (if i + 1 < length pathPart
           then (case addChild (Node (pathPart ! i) []) pathPart (i + 1) of
                   None \<Rightarrow> None
                 | Some c \<Rightarrow> Some (Node (mName n) (mChildren n @ [c])))
           else Some (Node (mName n) (mChildren n @ [Node (pathPart ! i) []]))))"
  by pat_completeness auto
termination
  by (relation "measure (\<lambda>(n, pathPart, i). length pathPart - i)") auto

declare addChild.simps [simp del]

text \<open>
  \<^verbatim>\<open>QString::split("/")\<close> keeps empty parts: the empty string splits into one empty
  part, and a string with \<open>k\<close> separators into \<open>k + 1\<close> parts.
\<close>

fun splitSlash :: "string \<Rightarrow> string list" where
  "splitSlash [] = [[]]"
| "splitSlash (c # cs) =
     (if c = CHR ''/'' then [] # splitSlash cs
      else (c # hd (splitSlash cs)) # tl (splitSlash cs))"

text \<open>
  The loop of \<^verbatim>\<open>createDiffTree\<close> over the names of the diff:
  \<^verbatim>\<open>mRoot->addChild(path.split("/"), 0)\<close> for each name in turn.
\<close>

fun insertAll :: "Node \<Rightarrow> string list \<Rightarrow> Node option" where
  "insertAll root [] = Some root"
| "insertAll root (p # ps) =
     (case addChild root (splitSlash p) 0 of
        None \<Rightarrow> None
      | Some root' \<Rightarrow> insertAll root' ps)"

section \<open>The collaborators: git::Diff and git::Index\<close>

text \<open>
  \<^verbatim>\<open>git::Index::StagedState\<close>, and the index as what \<^verbatim>\<open>isStaged(path)\<close> answers for
  each path. \<^verbatim>\<open>git::Index::setStaged(files, staged)\<close> is not part of these sources; the
  operations that call it take it as a parameter \<open>setStaged files staged ix\<close>, which
  returns whether it succeeded and the index it leaves.
\<close>

datatype StagedState = Disabled | Unstaged | PartiallyStaged | Staged | Conflicted

type_synonym Index = "string \<Rightarrow> StagedState"

text \<open>
  A \<^verbatim>\<open>git::Diff\<close>, by what its accessors answer: \<open>isValid\<close> (also its conversion to
  \<^verbatim>\<open>bool\<close>), \<open>isStatusDiff\<close>, the entries \<^verbatim>\<open>name(i)\<close> paired with
  \<^verbatim>\<open>statusChar(status(i))\<close> for \<open>i\<close> from \<open>0\<close> to \<^verbatim>\<open>count() - 1\<close>, and \<^verbatim>\<open>index()\<close>.
\<close>

record Diff =
  isValid :: bool
  isStatusDiff :: bool
  entries :: "(string \<times> char) list"
  index :: Index

section \<open>The model (DiffTreeModel)\<close>

text \<open>
  The fields of the model: the path of the working directory of \<^verbatim>\<open>mRepo\<close>, the
  attached diff \<^verbatim>\<open>mDiff\<close> and the tree \<^verbatim>\<open>mRoot\<close> (\<open>None\<close> is \<^verbatim>\<open>nullptr\<close>).
\<close>

record DiffTreeModel =
  workdir :: string
  mDiff :: Diff
  mRoot :: "Node option"

definition createDiffTree :: "DiffTreeModel \<Rightarrow> DiffTreeModel option" where
  "createDiffTree m =
     (case mRoot m of
        None \<Rightarrow> None
      | Some root \<Rightarrow>
          (case insertAll root (map fst (entries (mDiff m))) of
             None \<Rightarrow> None
           | Some root' \<Rightarrow> Some (m\<lparr>mRoot := Some root'\<rparr>)))"

text \<open>
  A pointer to a node and a \<^verbatim>\<open>QModelIndex\<close>: its row, its column, its internal pointer
  and whether it belongs to a model.
\<close>

type_synonym NodePtr = "nat list option"

datatype QModelIndex =
  ModelIndex (row: int) (column: int) (internalPointer: NodePtr) (hasModel: bool)

text \<open>
  \<^verbatim>\<open>QModelIndex()\<close>, \<^verbatim>\<open>createIndex(row, column, ptr)\<close> and \<^verbatim>\<open>QModelIndex::isValid()\<close> as
  Qt defines them: an index is valid when its row and column are not negative and it
  belongs to a model.
\<close>

definition QModelIndex_invalid :: QModelIndex where
  "QModelIndex_invalid = ModelIndex (- 1) (- 1) None False"

definition createIndex :: "int \<Rightarrow> int \<Rightarrow> NodePtr \<Rightarrow> QModelIndex" where
  "createIndex r c p = ModelIndex r c p True"

definition QModelIndex_isValid :: "QModelIndex \<Rightarrow> bool" where
  "QModelIndex_isValid ix = (0 \<le> row ix \<and> 0 \<le> column ix \<and> hasModel ix)"

text \<open>
  The roles of \<^verbatim>\<open>data\<close> and \<^verbatim>\<open>setData\<close>. \<open>KindRole\<close>, \<open>AddedRole\<close> and \<open>ModifiedRole\<close>,
  which \<^verbatim>\<open>data\<close> answers from \<^verbatim>\<open>Settings\<close>, \<^verbatim>\<open>git::Submodule\<close> and \<^verbatim>\<open>git::RevWalk\<close>, are
  not embedded; \<open>OtherRole\<close> is any role that no \<^verbatim>\<open>case\<close> of the two \<^verbatim>\<open>switch\<close>
  statements names.
\<close>

datatype ItemDataRole =
  DisplayRole | EditRole | ToolTipRole | CheckStateRole | StatusRole | OtherRole int

datatype CheckState = Unchecked | PartiallyChecked | Checked

text \<open>
  The variants \<^verbatim>\<open>data\<close> returns: \<^verbatim>\<open>QVariant()\<close>, a \<^verbatim>\<open>Qt::CheckState\<close> or a string. The
  variant that \<^verbatim>\<open>setData\<close> receives is read through \<^verbatim>\<open>toBool()\<close> and \<^verbatim>\<open>toInt()\<close>
  only, and is given by what the two conversions return.
\<close>

datatype QVariant =
  QVariant_invalid | QVariant_CheckState CheckState | QVariant_QString string

record QVariantArg =
  toBool :: bool
  toInt :: int

text \<open>
  The signals the model emits. \<^verbatim>\<open>beginResetModel()\<close> emits \<open>modelAboutToBeReset\<close> and
  \<^verbatim>\<open>endResetModel()\<close> emits \<open>modelReset\<close>. Operations return the list of the signals
  they emit, in order of emission.
\<close>

datatype signal =
    modelAboutToBeReset
  | modelReset
  | dataChanged QModelIndex QModelIndex "ItemDataRole list"
  | checkStateChanged QModelIndex int

text \<open>
  \<^verbatim>\<open>setDiff(diff)\<close>: between the two reset signals, and only \<^verbatim>\<open>if (diff)\<close>, the old tree
  is deleted, the diff is stored, a new root named after the working directory is
  created and the tree is built.
\<close>

definition setDiff ::
  "DiffTreeModel \<Rightarrow> Diff \<Rightarrow> (DiffTreeModel \<times> signal list) option" where
  "setDiff m diff =
     (if isValid diff
      then (case createDiffTree (m\<lparr>mDiff := diff, mRoot := Some (Node (workdir m) [])\<rparr>) of
              None \<Rightarrow> None
            | Some m' \<Rightarrow> Some (m', [modelAboutToBeReset, modelReset]))
      else Some (m, [modelAboutToBeReset, modelReset]))"

subsection \<open>Pointers into the tree\<close>

fun nodeAt :: "Node \<Rightarrow> nat list \<Rightarrow> Node option" where
  "nodeAt root [] = Some root"
| "nodeAt root (r # up) =
     (case nodeAt root up of
        None \<Rightarrow> None
      | Some p \<Rightarrow> if r < length (mChildren p) then Some (mChildren p ! r) else None)"

definition deref :: "DiffTreeModel \<Rightarrow> NodePtr \<Rightarrow> Node option" where
  "deref m p =
     (case p of
        None \<Rightarrow> None
      | Some pos \<Rightarrow> (case mRoot m of None \<Rightarrow> None | Some root \<Rightarrow> nodeAt root pos))"

text \<open>The pointer \<^verbatim>\<open>mRoot\<close>, and the field \<^verbatim>\<open>mParent\<close> of the node at a position.\<close>

definition mRootPtr :: "DiffTreeModel \<Rightarrow> NodePtr" where
  "mRootPtr m = (case mRoot m of None \<Rightarrow> None | Some root \<Rightarrow> Some [])"

definition mParent :: "nat list \<Rightarrow> NodePtr" where
  "mParent pos = (case pos of [] \<Rightarrow> None | r # up \<Rightarrow> Some up)"

text \<open>
  The accessors of \<^verbatim>\<open>Node\<close>, through a pointer: \<^verbatim>\<open>name()\<close>, \<^verbatim>\<open>parent()\<close>,
  \<^verbatim>\<open>hasChildren()\<close> and \<^verbatim>\<open>children()\<close> (the pointers to the children, in row order).
\<close>

definition Node_name :: "DiffTreeModel \<Rightarrow> NodePtr \<Rightarrow> string option" where
  "Node_name m p = map_option mName (deref m p)"

definition Node_parent :: "DiffTreeModel \<Rightarrow> NodePtr \<Rightarrow> NodePtr option" where
  "Node_parent m p =
     (case p of
        None \<Rightarrow> None
      | Some pos \<Rightarrow> (case deref m p of None \<Rightarrow> None | Some n \<Rightarrow> Some (mParent pos)))"

definition Node_hasChildren :: "DiffTreeModel \<Rightarrow> NodePtr \<Rightarrow> bool option" where
  "Node_hasChildren m p = map_option (\<lambda>n. 0 < length (mChildren n)) (deref m p)"

definition Node_children :: "DiffTreeModel \<Rightarrow> NodePtr \<Rightarrow> NodePtr list option" where
  "Node_children m p =
     (case p of
        None \<Rightarrow> None
      | Some pos \<Rightarrow>
          (case deref m p of
             None \<Rightarrow> None
           | Some n \<Rightarrow> Some (map (\<lambda>r. Some (r # pos)) [0 ..< length (mChildren n)])))"

text \<open>
  \<^verbatim>\<open>Node::path(relative)\<close>:
  \<^verbatim>\<open>bool root = (!mParent || (relative && !mParent->mParent));\<close>
  \<^verbatim>\<open>return !root ? mParent->path(relative) % "/" % mName : mName;\<close>
  The node at \<open>[]\<close> has no parent; the node at \<open>r # up\<close> has the parent at \<open>up\<close>.
\<close>

fun path :: "Node \<Rightarrow> bool \<Rightarrow> nat list \<Rightarrow> string option" where
  "path root relative [] = map_option mName (nodeAt root [])"
| "path root relative (r # up) =
     (let isRoot = (relative \<and> mParent up = None) in
      if \<not> isRoot
      then (case path root relative up of
              None \<Rightarrow> None
            | Some pp \<Rightarrow>
                (case nodeAt root (r # up) of
                   None \<Rightarrow> None
                 | Some n \<Rightarrow> Some (pp @ ''/'' @ mName n)))
      else map_option mName (nodeAt root (r # up)))"

definition Node_path :: "DiffTreeModel \<Rightarrow> NodePtr \<Rightarrow> bool \<Rightarrow> string option" where
  "Node_path m p relative =
     (case p of
        None \<Rightarrow> None
      | Some pos \<Rightarrow> (case mRoot m of None \<Rightarrow> None | Some root \<Rightarrow> path root relative pos))"

subsection \<open>Navigation (QAbstractItemModel interface)\<close>

text \<open>
  \<^verbatim>\<open>node(index)\<close>, \<^verbatim>\<open>rowCount\<close>, \<^verbatim>\<open>columnCount\<close>, \<^verbatim>\<open>hasChildren\<close>, \<^verbatim>\<open>parent\<close> and
  \<^verbatim>\<open>index(row, column, parent)\<close> (here \<open>indexAt\<close>, since \<open>index\<close> is the accessor of the
  diff). \<open>indexOf\<close> is \<^verbatim>\<open>QList::indexOf\<close>: the first position of an element, or \<open>-1\<close>.
\<close>

definition node :: "DiffTreeModel \<Rightarrow> QModelIndex \<Rightarrow> NodePtr" where
  "node m ix = (if QModelIndex_isValid ix then internalPointer ix else mRootPtr m)"

definition rowCount :: "DiffTreeModel \<Rightarrow> QModelIndex \<Rightarrow> int option" where
  "rowCount m par =
     (if isValid (mDiff m)
      then map_option (\<lambda>cs. int (length cs)) (Node_children m (node m par))
      else Some 0)"

definition columnCount :: "DiffTreeModel \<Rightarrow> QModelIndex \<Rightarrow> int" where
  "columnCount m par = 1"

definition hasChildren :: "DiffTreeModel \<Rightarrow> QModelIndex \<Rightarrow> bool option" where
  "hasChildren m par =
     (if mRoot m = None then Some False else Node_hasChildren m (node m par))"

fun indexOf :: "'a list \<Rightarrow> 'a \<Rightarrow> int" where
  "indexOf [] x = - 1"
| "indexOf (y # ys) x =
     (if y = x then 0 else (let k = indexOf ys x in if k < 0 then - 1 else k + 1))"

definition parent :: "DiffTreeModel \<Rightarrow> QModelIndex \<Rightarrow> QModelIndex option" where
  "parent m ix =
     (case Node_parent m (node m ix) of
        None \<Rightarrow> None
      | Some p \<Rightarrow>
          if p = None \<or> p = mRootPtr m then Some QModelIndex_invalid
          else (case Node_parent m p of
                  None \<Rightarrow> None
                | Some None \<Rightarrow> None
                | Some gp \<Rightarrow>
                    (case Node_children m gp of
                       None \<Rightarrow> None
                     | Some cs \<Rightarrow> Some (createIndex (indexOf cs p) 0 p))))"

definition indexAt ::
  "DiffTreeModel \<Rightarrow> int \<Rightarrow> int \<Rightarrow> QModelIndex \<Rightarrow> QModelIndex option" where
  "indexAt m r c par =
     (if r < 0 then Some QModelIndex_invalid
      else case rowCount m par of
        None \<Rightarrow> None
      | Some n \<Rightarrow>
          if n \<le> r \<or> c < 0 \<or> columnCount m par \<le> c then Some QModelIndex_invalid
          else (case Node_children m (node m par) of
                  None \<Rightarrow> None
                | Some cs \<Rightarrow>
                    if nat r < length cs then Some (createIndex r c (cs ! nat r)) else None))"

subsection \<open>Queries (DiffTreeModel::data)\<close>

text \<open>\<^verbatim>\<open>QString::startsWith\<close>, case sensitive: a comparison of characters.\<close>

definition startsWith :: "string \<Rightarrow> string \<Rightarrow> bool" where
  "startsWith s p = (take (length p) s = p)"

text \<open>
  The loop that \<^verbatim>\<open>data\<close> and \<^verbatim>\<open>setData\<close> both run over the names of the diff,
  \<^verbatim>\<open>if (path.startsWith(prefix)) paths.append(path);\<close>
\<close>

definition matchingPaths :: "Diff \<Rightarrow> string \<Rightarrow> string list" where
  "matchingPaths d prefix = filter (\<lambda>p. startsWith p prefix) (map fst (entries d))"

text \<open>
  The \<^verbatim>\<open>foreach\<close> loop of the \<^verbatim>\<open>CheckStateRole\<close> case with the \<^verbatim>\<open>if\<close> chain after it:
  \<open>cnt\<close> is the counter \<^verbatim>\<open>count\<close>, \<open>sz\<close> is \<^verbatim>\<open>paths.size()\<close>.
\<close>

fun checkStateLoop :: "Index \<Rightarrow> string list \<Rightarrow> nat \<Rightarrow> nat \<Rightarrow> CheckState" where
  "checkStateLoop ix [] cnt sz =
     (if cnt = 0 then Unchecked
      else if cnt = sz then Checked
      else PartiallyChecked)"
| "checkStateLoop ix (p # ps) cnt sz =
     (case ix p of
        Disabled \<Rightarrow> checkStateLoop ix ps cnt sz
      | Unstaged \<Rightarrow> checkStateLoop ix ps cnt sz
      | Conflicted \<Rightarrow> checkStateLoop ix ps cnt sz
      | PartiallyStaged \<Rightarrow> PartiallyChecked
      | Staged \<Rightarrow> checkStateLoop ix ps (cnt + 1) sz)"

text \<open>
  The loop of the \<^verbatim>\<open>StatusRole\<close> case. The helper \<^verbatim>\<open>containsPath(name, prefix)\<close> that
  it calls is not part of these sources and is a parameter.
\<close>

fun statusLoop ::
  "(string \<Rightarrow> string \<Rightarrow> bool) \<Rightarrow> string \<Rightarrow> (string \<times> char) list \<Rightarrow> string \<Rightarrow> string" where
  "statusLoop containsPath prefix [] status = status"
| "statusLoop containsPath prefix ((name, ch) # es) status =
     statusLoop containsPath prefix es
       (if containsPath name prefix
        then (if ch \<notin> set status then status @ [ch] else status)
        else status)"

definition data ::
  "(string \<Rightarrow> string \<Rightarrow> bool) \<Rightarrow> DiffTreeModel \<Rightarrow> QModelIndex \<Rightarrow> ItemDataRole \<Rightarrow>
   QVariant option" where
  "data containsPath m ix role =
     (if \<not> QModelIndex_isValid ix then Some QVariant_invalid
      else case role of
        DisplayRole \<Rightarrow> map_option QVariant_QString (Node_name m (node m ix))
      | EditRole \<Rightarrow> map_option QVariant_QString (Node_path m (node m ix) True)
      | ToolTipRole \<Rightarrow> map_option QVariant_QString (Node_path m (node m ix) False)
      | CheckStateRole \<Rightarrow>
          if \<not> isValid (mDiff m) \<or> \<not> isStatusDiff (mDiff m) then Some QVariant_invalid
          else (case Node_path m (node m ix) True of
                  None \<Rightarrow> None
                | Some prefix \<Rightarrow>
                    (let paths = matchingPaths (mDiff m) prefix
                     in if paths = [] then Some QVariant_invalid
                        else Some (QVariant_CheckState
                               (checkStateLoop (index (mDiff m)) paths 0 (length paths)))))
      | StatusRole \<Rightarrow>
          if \<not> isValid (mDiff m) then Some (QVariant_QString [])
          else (case Node_path m (node m ix) True of
                  None \<Rightarrow> None
                | Some prefix \<Rightarrow>
                    Some (QVariant_QString
                      (statusLoop containsPath prefix (entries (mDiff m)) [])))
      | OtherRole k \<Rightarrow> Some QVariant_invalid)"

subsection \<open>Toggling (DiffTreeModel::setData)\<close>

text \<open>
  The loop over the rows of the children, under \<^verbatim>\<open>if (hasChildren(index))\<close>, and the
  loop \<^verbatim>\<open>while (parent.isValid())\<close> over the ancestors. The second loop ends because
  each step moves to a pointer that is one row shorter.
\<close>

definition emitChildren ::
  "DiffTreeModel \<Rightarrow> QModelIndex \<Rightarrow> ItemDataRole \<Rightarrow> signal list option" where
  "emitChildren m ix role =
     (case hasChildren m ix of
        None \<Rightarrow> None
      | Some False \<Rightarrow> Some []
      | Some True \<Rightarrow>
          (case rowCount m ix of
             None \<Rightarrow> None
           | Some count \<Rightarrow>
               those (map (\<lambda>r. map_option (\<lambda>child. dataChanged child child [role])
                                  (indexAt m r 0 ix))
                          [0 .. count - 1])))"

function emitParents ::
  "DiffTreeModel \<Rightarrow> QModelIndex \<Rightarrow> ItemDataRole \<Rightarrow> signal list option" where
  "emitParents m p role =
     (if QModelIndex_isValid p
      then (case parent m p of
              None \<Rightarrow> None
            | Some pp \<Rightarrow>
                map_option (\<lambda>rest. dataChanged p p [role] # rest) (emitParents m pp role))
      else Some [])"
  by pat_completeness auto
termination
proof (relation "measure (\<lambda>(m, p, role).
           if QModelIndex_isValid p then 1 + length (the (internalPointer p)) else 0)")
  show "wf (measure (\<lambda>(m, p, role).
           if QModelIndex_isValid p then 1 + length (the (internalPointer p)) else 0))"
    by simp
next
  fix m :: DiffTreeModel and p pp :: QModelIndex and role :: ItemDataRole
  assume v: "QModelIndex_isValid p" and pp: "parent m p = Some pp"
  have "QModelIndex_isValid pp \<Longrightarrow>
        length (the (internalPointer pp)) < length (the (internalPointer p))"
    using v pp
    by (auto simp: parent_def node_def Node_parent_def deref_def createIndex_def
        QModelIndex_invalid_def QModelIndex_isValid_def mRootPtr_def mParent_def
        split: option.splits if_splits list.splits)
  with v show "((m, pp, role), (m, p, role)) \<in> measure (\<lambda>(m, p, role).
           if QModelIndex_isValid p then 1 + length (the (internalPointer p)) else 0)"
    by simp
qed

declare emitParents.simps [simp del]

text \<open>
  The statement \<^verbatim>\<open>mDiff.index().setStaged(files, value.toBool());\<close>: the value that
  \<open>setStaged\<close> returns is not read by the source, only the index it leaves enters the
  new state.
\<close>

definition stageFiles ::
  "(string list \<Rightarrow> bool \<Rightarrow> Index \<Rightarrow> bool \<times> Index) \<Rightarrow> DiffTreeModel \<Rightarrow> string list \<Rightarrow>
   bool \<Rightarrow> DiffTreeModel" where
  "stageFiles setStaged m files staged =
     m\<lparr>mDiff := (mDiff m)\<lparr>index := snd (setStaged files staged (index (mDiff m)))\<rparr>\<rparr>"

text \<open>
  \<^verbatim>\<open>setData(index, value, role, ignoreIndexChanges)\<close>. The result is the returned
  \<^verbatim>\<open>bool\<close>, the signals emitted and the new state.
\<close>

definition setData ::
  "(string list \<Rightarrow> bool \<Rightarrow> Index \<Rightarrow> bool \<times> Index) \<Rightarrow> DiffTreeModel \<Rightarrow> QModelIndex \<Rightarrow>
   QVariantArg \<Rightarrow> ItemDataRole \<Rightarrow> bool \<Rightarrow> (bool \<times> signal list \<times> DiffTreeModel) option" where
  "setData setStaged m ix v role ignoreIndexChanges =
     (case role of
        CheckStateRole \<Rightarrow>
          (case Node_path m (node m ix) True of
             None \<Rightarrow> None
           | Some prefix \<Rightarrow>
               (let files = matchingPaths (mDiff m) prefix;
                    m' = (if \<not> ignoreIndexChanges
                          then stageFiles setStaged m files (toBool v)
                          else m)
                in case emitChildren m' ix role of
                     None \<Rightarrow> None
                   | Some cs \<Rightarrow>
                       (case parent m' ix of
                          None \<Rightarrow> None
                        | Some p \<Rightarrow>
                            (case emitParents m' p role of
                               None \<Rightarrow> None
                             | Some ps \<Rightarrow>
                                 Some (True,
                                       cs @ ps @ [dataChanged ix ix [role],
                                                  checkStateChanged ix (toInt v)],
                                       m')))))
      | _ \<Rightarrow> Some (False, [], m))"

section \<open>Properties stated about the tree\<close>

text \<open>Sibling-name uniqueness, at every node of a tree.\<close>

fun sibling_unique :: "Node \<Rightarrow> bool" where
  "sibling_unique (Node nm cs) =
     (distinct (map mName cs) \<and> (\<forall>c \<in> set cs. sibling_unique c))"

section \<open>Definitions used to state the properties of paths\<close>

text \<open>
  The nodes from the root down to the node at a position, and \<^verbatim>\<open>QStringList::join\<close>.
\<close>

fun chain :: "Node \<Rightarrow> nat list \<Rightarrow> Node list option" where
  "chain root [] = Some [root]"
| "chain root (r # up) =
     (case chain root up of
        None \<Rightarrow> None
      | Some ns \<Rightarrow>
          (case nodeAt root (r # up) of
             None \<Rightarrow> None
           | Some n \<Rightarrow> Some (ns @ [n])))"

fun join :: "string \<Rightarrow> string list \<Rightarrow> string" where
  "join sep [] = []"
| "join sep [x] = x"
| "join sep (x # y # ys) = x @ sep @ join sep (y # ys)"

section \<open>Definitions used to state the properties of queries\<close>

text \<open>The number of paths of a list that the index reports as \<open>Staged\<close>.\<close>

definition stagedCount :: "Diff \<Rightarrow> string list \<Rightarrow> nat" where
  "stagedCount d ps = length (filter (\<lambda>p. index d p = Staged) ps)"

text \<open>
  The elements of a list in the order in which each is first seen, without the later
  repetitions.
\<close>

fun firstSeen :: "'a list \<Rightarrow> 'a list" where
  "firstSeen [] = []"
| "firstSeen (x # xs) = x # filter (\<lambda>y. y \<noteq> x) (firstSeen xs)"

text \<open>
  Modelled from the spec: \<^verbatim>\<open>containsPath\<close> is not part of these sources and is a
  parameter of \<open>data\<close>; the examples instantiate it with the segment-wise prefix test
  that the specification describes.
\<close>

definition containsPath_spec :: "string \<Rightarrow> string \<Rightarrow> bool" where
  "containsPath_spec name prefix = (name = prefix \<or> startsWith name (prefix @ ''/''))"

section \<open>Definitions used to state the properties of toggling\<close>

text \<open>
  The state-changed notification of an index; the indexes of the direct children of
  the node \<open>n\<close> at position \<open>pos\<close>, in row order; the indexes of its strict ancestors
  below the root, walking upward; and the index that \<^verbatim>\<open>parent\<close> answers for the node at
  a position (invalid for the root and for the children of the root).
\<close>

definition stateChanged :: "QModelIndex \<Rightarrow> signal" where
  "stateChanged ix = dataChanged ix ix [CheckStateRole]"

definition childIndexes :: "nat list \<Rightarrow> Node \<Rightarrow> QModelIndex list" where
  "childIndexes pos n =
     map (\<lambda>r. createIndex (int r) 0 (Some (r # pos))) [0 ..< length (mChildren n)]"

fun ancestorIndexes :: "nat list \<Rightarrow> QModelIndex list" where
  "ancestorIndexes [] = []"
| "ancestorIndexes [r] = []"
| "ancestorIndexes (r # q # up) =
     createIndex (int q) 0 (Some (q # up)) # ancestorIndexes (q # up)"

definition parentIndex :: "nat list \<Rightarrow> QModelIndex" where
  "parentIndex pos =
     (case pos of
        [] \<Rightarrow> QModelIndex_invalid
      | r # up \<Rightarrow> (case up of [] \<Rightarrow> QModelIndex_invalid
                  | q # up' \<Rightarrow> createIndex (int q) 0 (Some up)))"

section \<open>Example data\<close>

text \<open>
  The scenario of three changed files, all unstaged, in a repository at \<open>/repo\<close>; the
  model before any diff is attached and the model after \<^verbatim>\<open>setDiff\<close>.
\<close>

definition exDiff :: Diff where
  "exDiff = \<lparr> isValid = True, isStatusDiff = True,
     entries = [(''src/a.txt'', CHR ''M''), (''src/b.txt'', CHR ''M''),
                (''docs/c.txt'', CHR ''A'')],
     index = (\<lambda>p. Unstaged) \<rparr>"

definition exTree :: Node where
  "exTree = Node ''/repo''
     [Node ''src'' [Node ''a.txt'' [], Node ''b.txt'' []],
      Node ''docs'' [Node ''c.txt'' []]]"

definition exEmpty :: DiffTreeModel where
  "exEmpty = \<lparr> workdir = ''/repo'',
     mDiff = \<lparr> isValid = False, isStatusDiff = False, entries = [], index = (\<lambda>p. Unstaged) \<rparr>,
     mRoot = None \<rparr>"

definition exModel :: DiffTreeModel where
  "exModel = \<lparr> workdir = ''/repo'', mDiff = exDiff, mRoot = Some exTree \<rparr>"

text \<open>The index of the folder \<open>src\<close> of the example.\<close>

definition ixSrc :: QModelIndex where
  "ixSrc = createIndex 0 0 (Some [0])"

text \<open>
  The index of the file \<open>src/a.txt\<close> of the example, the value of a toggle to checked,
  and two stand-ins for the parameter \<open>setStaged\<close>: one stages or unstages the files it
  is given and reports success, the other fails and leaves the index as it is.
\<close>

definition ixA :: QModelIndex where
  "ixA = createIndex 0 0 (Some [0, 0])"

definition checked :: QVariantArg where
  "checked = \<lparr> toBool = True, toInt = 2 \<rparr>"

definition setStaged_sets :: "string list \<Rightarrow> bool \<Rightarrow> Index \<Rightarrow> bool \<times> Index" where
  "setStaged_sets files staged ix =
     (True, \<lambda>p. if p \<in> set files then (if staged then Staged else Unstaged) else ix p)"

definition setStaged_fails :: "string list \<Rightarrow> bool \<Rightarrow> Index \<Rightarrow> bool \<times> Index" where
  "setStaged_fails files staged ix = (False, ix)"

text \<open>The example with a diff that is valid but is not a status diff.\<close>

definition exCommitModel :: DiffTreeModel where
  "exCommitModel = exModel\<lparr>mDiff := exDiff\<lparr>isStatusDiff := False\<rparr>\<rparr>"

text \<open>
  Two folders of which the name of one is a prefix of the name of the other: \<open>ab/x\<close> is
  staged, \<open>abc/x\<close> is not. \<open>ixAb\<close> is the index of the folder \<open>ab\<close>.
\<close>

definition prefixDiff :: Diff where
  "prefixDiff = \<lparr> isValid = True, isStatusDiff = True,
     entries = [(''ab/x'', CHR ''M''), (''abc/x'', CHR ''M'')],
     index = (\<lambda>p. if p = ''ab/x'' then Staged else Unstaged) \<rparr>"

definition prefixModel :: DiffTreeModel where
  "prefixModel = \<lparr> workdir = ''/repo'', mDiff = prefixDiff,
     mRoot = Some (Node ''/repo'' [Node ''ab'' [Node ''x'' []], Node ''abc'' [Node ''x'' []]]) \<rparr>"

definition ixAb :: QModelIndex where
  "ixAb = createIndex 0 0 (Some [0])"

section \<open>Insertion keeps sibling names unique\<close>

lemma findChild_None: "findChild s cs = None \<longleftrightarrow> s \<notin> mName ` set cs"
  by (induction cs) auto

lemma findChild_Some:
  "findChild s cs = Some k \<Longrightarrow> k < length cs \<and> mName (cs ! k) = s"
proof (induction cs arbitrary: k)
  case Nil
  then show ?case by simp
next
  case (Cons c cs)
  then show ?case by (cases k) (auto split: if_splits)
qed

lemma addChild_mName: "addChild n pathPart i = Some n' \<Longrightarrow> mName n' = mName n"
  by (subst (asm) addChild.simps) (auto split: if_splits option.splits)

lemma sibling_unique_iff:
  "sibling_unique n \<longleftrightarrow>
     distinct (map mName (mChildren n)) \<and> (\<forall>c \<in> set (mChildren n). sibling_unique c)"
  by (cases n) simp

lemma addChild_sibling_unique:
  "sibling_unique n \<Longrightarrow> addChild n pathPart i = Some n' \<Longrightarrow> sibling_unique n'"
proof (induction n pathPart i arbitrary: n' rule: addChild.induct)
  case (1 n pathPart i)
  note step = "1.prems"(2)[unfolded addChild.simps[of n pathPart i]]
  from step have inr: "\<not> length pathPart \<le> i"
    by (auto split: if_splits)
  show ?case
  proof (cases "findChild (pathPart ! i) (mChildren n)")
    case (Some k)
    from findChild_Some[OF Some]
    have k: "k < length (mChildren n)" and nk: "mName (mChildren n ! k) = pathPart ! i"
      by auto
    from step inr Some obtain c where
      c: "addChild (mChildren n ! k) pathPart (i + 1) = Some c" and
      n': "n' = Node (mName n) ((mChildren n)[k := c])"
      by (auto split: option.splits)
    have uk: "sibling_unique (mChildren n ! k)"
      using "1.prems"(1) k by (auto simp: sibling_unique_iff[of n])
    have uc: "sibling_unique c"
      using "1.IH"(2)[OF inr Some uk c] .
    have names: "map mName ((mChildren n)[k := c]) = map mName (mChildren n)"
      using addChild_mName[OF c] k by (simp add: map_update list_update_same_conv)
    have "\<forall>d \<in> set ((mChildren n)[k := c]). sibling_unique d"
      using uc "1.prems"(1) set_update_subset_insert[of "mChildren n" k c]
      by (auto simp: sibling_unique_iff[of n])
    with names "1.prems"(1) show ?thesis
      by (simp add: n' sibling_unique_iff[of n])
  next
    case None
    then have fresh: "pathPart ! i \<notin> mName ` set (mChildren n)"
      by (simp add: findChild_None)
    show ?thesis
    proof (cases "i + 1 < length pathPart")
      case True
      from step inr None True obtain c where
        c: "addChild (Node (pathPart ! i) []) pathPart (i + 1) = Some c" and
        n': "n' = Node (mName n) (mChildren n @ [c])"
        by (auto split: option.splits)
      have uc: "sibling_unique c"
        using "1.IH"(1)[OF inr None True _ c] by simp
      have "mName c = pathPart ! i"
        using addChild_mName[OF c] by simp
      with fresh uc "1.prems"(1) show ?thesis
        by (auto simp: n' sibling_unique_iff[of n])
    next
      case False
      with step inr None have "n' = Node (mName n) (mChildren n @ [Node (pathPart ! i) []])"
        by (auto split: option.splits)
      with fresh "1.prems"(1) show ?thesis
        by (auto simp: sibling_unique_iff[of n])
    qed
  qed
qed

lemma insertAll_sibling_unique:
  "sibling_unique root \<Longrightarrow> insertAll root ps = Some t \<Longrightarrow> sibling_unique t"
proof (induction ps arbitrary: root)
  case Nil
  then show ?case by simp
next
  case (Cons p ps)
  then show ?case
    by (auto split: option.splits dest: addChild_sibling_unique)
qed

text \<open>
  Claim C7. No node ever has two children of the same name: the new root that
  \<^verbatim>\<open>setDiff\<close> creates has none, every insertion \<^verbatim>\<open>addChild\<close> that returns keeps the
  property at every node of the tree, and so the property holds after each name of the
  diff has been inserted (after the first \<open>k\<close> names, for every \<open>k\<close>) and in the tree
  that \<^verbatim>\<open>setDiff\<close> leaves.
\<close>

theorem sibling_names_unique:
  "sibling_unique (Node w []) \<and>
   (sibling_unique n \<and> addChild n pathPart i = Some n' \<longrightarrow> sibling_unique n') \<and>
   (insertAll (Node w []) (take k names) = Some t \<longrightarrow> sibling_unique t) \<and>
   (isValid diff \<and> setDiff m diff = Some (m', sigs) \<longrightarrow>
      (\<exists>t'. mRoot m' = Some t' \<and> sibling_unique t'))"
proof -
  have fresh: "\<And>s. sibling_unique (Node s [])"
    by simp
  have a: "sibling_unique n \<and> addChild n pathPart i = Some n' \<longrightarrow> sibling_unique n'"
    using addChild_sibling_unique by blast
  have b: "insertAll (Node w []) (take k names) = Some t \<longrightarrow> sibling_unique t"
    using insertAll_sibling_unique[OF fresh] by blast
  have c: "isValid diff \<and> setDiff m diff = Some (m', sigs) \<longrightarrow>
      (\<exists>t'. mRoot m' = Some t' \<and> sibling_unique t')"
    using insertAll_sibling_unique[OF fresh]
    by (auto simp: setDiff_def createDiffTree_def split: option.splits)
  from fresh a b c show ?thesis
    by blast
qed

lemma setDiff_example:
  "setDiff exEmpty exDiff = Some (exModel, [modelAboutToBeReset, modelReset])"
  by (simp add: setDiff_def createDiffTree_def exEmpty_def exDiff_def exModel_def
      exTree_def addChild.simps)

theorem sibling_names_unique_witness:
  "sibling_unique exTree \<and> mRoot exModel = Some exTree \<and>
   setDiff exEmpty exDiff = Some (exModel, [modelAboutToBeReset, modelReset])"
proof -
  have v: "isValid exDiff"
    by (simp add: exDiff_def)
  from sibling_names_unique[of "''/repo''" exTree "[]" 0 exTree 0 "[]" exTree exDiff
      exEmpty exModel "[modelAboutToBeReset, modelReset]"] v setDiff_example
  show ?thesis
    by (simp add: exModel_def)
qed

section \<open>Inserting a path twice\<close>

lemma findChild_names:
  "map mName cs = map mName cs' \<Longrightarrow> findChild s cs = findChild s cs'"
proof (induction cs arbitrary: cs')
  case Nil
  then show ?case by simp
next
  case (Cons c cs)
  then obtain d ds where "cs' = d # ds" by (cases cs') auto
  with Cons show ?case by auto
qed

lemma findChild_append_new:
  "findChild s cs = None \<Longrightarrow> mName c = s \<Longrightarrow> findChild s (cs @ [c]) = Some (length cs)"
  by (induction cs) (auto split: if_splits)

lemma addChild_again:
  "addChild n pathPart i = Some n' \<Longrightarrow> addChild n' pathPart i = None"
proof (induction n pathPart i arbitrary: n' rule: addChild.induct)
  case (1 n pathPart i)
  note step = "1.prems"(1)[unfolded addChild.simps[of n pathPart i]]
  from step have inr: "\<not> length pathPart \<le> i"
    by (auto split: if_splits)
  show ?case
  proof (cases "findChild (pathPart ! i) (mChildren n)")
    case (Some k)
    from findChild_Some[OF Some] have k: "k < length (mChildren n)"
      by auto
    from step inr Some obtain c where
      c: "addChild (mChildren n ! k) pathPart (i + 1) = Some c" and
      n': "n' = Node (mName n) ((mChildren n)[k := c])"
      by (auto split: option.splits)
    have again: "addChild c pathPart (i + 1) = None"
      using "1.IH"(2)[OF inr Some c] .
    have "map mName ((mChildren n)[k := c]) = map mName (mChildren n)"
      using addChild_mName[OF c] k by (simp add: map_update list_update_same_conv)
    then have "findChild (pathPart ! i) ((mChildren n)[k := c]) = Some k"
      using findChild_names Some by metis
    with again k inr show ?thesis
      by (subst addChild.simps) (simp add: n')
  next
    case None
    show ?thesis
    proof (cases "i + 1 < length pathPart")
      case True
      from step inr None True obtain c where
        c: "addChild (Node (pathPart ! i) []) pathPart (i + 1) = Some c" and
        n': "n' = Node (mName n) (mChildren n @ [c])"
        by (auto split: option.splits)
      have again: "addChild c pathPart (i + 1) = None"
        using "1.IH"(1)[OF inr None True c] .
      have "mName c = pathPart ! i"
        using addChild_mName[OF c] by simp
      from findChild_append_new[OF None this] again inr show ?thesis
        by (subst addChild.simps) (simp add: n')
    next
      case False
      with step inr None have n': "n' = Node (mName n) (mChildren n @ [Node (pathPart ! i) []])"
        by (auto split: option.splits)
      have last: "addChild (Node (pathPart ! i) []) pathPart (i + 1) = None"
        using False by (subst addChild.simps) simp
      have "findChild (pathPart ! i) (mChildren n @ [Node (pathPart ! i) []]) =
            Some (length (mChildren n))"
        using findChild_append_new[OF None] by simp
      with last inr show ?thesis
        by (subst addChild.simps) (simp add: n')
    qed
  qed
qed

lemma splitSlash_nonempty: "splitSlash p \<noteq> []"
  by (cases p) auto

lemma addChild_fresh_returns:
  "i < length pathPart \<Longrightarrow> \<exists>n'. addChild (Node s []) pathPart i = Some n'"
proof (induction "length pathPart - i" arbitrary: i s)
  case 0
  then show ?case by simp
next
  case (Suc d)
  show ?case
  proof (cases "i + 1 < length pathPart")
    case True
    with Suc.hyps(2) have "d = length pathPart - (i + 1)" by simp
    from Suc.hyps(1)[OF this True, of "pathPart ! i"] obtain c where
      "addChild (Node (pathPart ! i) []) pathPart (i + 1) = Some c"
      by blast
    with True Suc.prems show ?thesis
      by (subst addChild.simps) simp
  next
    case False
    with Suc.prems show ?thesis
      by (subst addChild.simps) simp
  qed
qed

text \<open>
  Claim C4. The first insertion of a path into a new root completes. Inserting the
  path a second time reuses the children that exist, level by level, and then recurses
  once more into the last of them with an index one past the end of \<^verbatim>\<open>pathPart\<close>: the
  recursion into an existing child has no test of the index, unlike the recursion into
  a new node. The second insertion of a path therefore never completes, whatever the
  tree and the path.
\<close>

theorem insert_twice_fails:
  "(\<exists>t. insertAll (Node w []) [p] = Some t) \<and> insertAll root [p, p] = None"
proof -
  have "0 < length (splitSlash p)"
    using splitSlash_nonempty[of p] by simp
  from addChild_fresh_returns[OF this, of w] have "\<exists>t. insertAll (Node w []) [p] = Some t"
    by auto
  moreover have "insertAll root [p, p] = None"
    by (auto split: option.splits dest: addChild_again)
  ultimately show ?thesis by blast
qed

theorem insert_twice_fails_witness:
  "insertAll (Node ''/repo'' []) [''src/a.txt''] =
     Some (Node ''/repo'' [Node ''src'' [Node ''a.txt'' []]]) \<and>
   insertAll (Node ''/repo'' []) [''src/a.txt'', ''src/a.txt''] = None"
  using insert_twice_fails[of "''/repo''" "''src/a.txt''" "Node ''/repo'' []"]
  by (simp add: addChild.simps)

section \<open>Attaching a diff\<close>

text \<open>
  Claim C10. \<^verbatim>\<open>setDiff\<close> with an invalid diff returns the model as it was (the same
  tree, the same attached diff) and has emitted the two reset signals; with a valid
  diff, when it returns, the new diff is attached and the tree is the one built from a
  new root named after the working directory, between the same two signals.
\<close>

theorem setDiff_invalid_diff:
  "(\<not> isValid diff \<longrightarrow> setDiff m diff = Some (m, [modelAboutToBeReset, modelReset])) \<and>
   (isValid diff \<and> setDiff m diff = Some (m', sigs) \<longrightarrow>
      mDiff m' = diff \<and> workdir m' = workdir m \<and>
      mRoot m' = insertAll (Node (workdir m) []) (map fst (entries diff)) \<and>
      sigs = [modelAboutToBeReset, modelReset])"
  by (auto simp: setDiff_def createDiffTree_def split: option.splits)

theorem setDiff_invalid_diff_witness:
  "setDiff exModel (exDiff\<lparr>isValid := False\<rparr>) =
     Some (exModel, [modelAboutToBeReset, modelReset]) \<and>
   setDiff exEmpty exDiff = Some (exModel, [modelAboutToBeReset, modelReset]) \<and>
   mDiff exModel = exDiff \<and> mRoot exModel = Some exTree"
proof -
  have a: "\<not> isValid (exDiff\<lparr>isValid := False\<rparr>)" by simp
  have b: "isValid exDiff" by (simp add: exDiff_def)
  from setDiff_invalid_diff[of "exDiff\<lparr>isValid := False\<rparr>" exModel exModel "[]"] a
    setDiff_invalid_diff[of exDiff exEmpty exModel "[modelAboutToBeReset, modelReset]"] b
    setDiff_example
  show ?thesis
    by (simp add: exModel_def)
qed

section \<open>Paths of nodes\<close>

lemma join_snoc: "xs \<noteq> [] \<Longrightarrow> join sep (xs @ [x]) = join sep xs @ sep @ x"
  by (induction sep xs rule: join.induct) auto

lemma chain_length: "chain root pos = Some ns \<Longrightarrow> length ns = Suc (length pos)"
  by (induction pos arbitrary: ns) (auto split: option.splits)

lemma chain_nodeAt: "chain root pos = Some ns \<Longrightarrow> nodeAt root pos = Some (last ns)"
  by (cases pos) (auto split: option.splits)

lemma path_full:
  "chain root pos = Some ns \<Longrightarrow> path root False pos = Some (join ''/'' (map mName ns))"
proof (induction pos arbitrary: ns)
  case Nil
  then show ?case by auto
next
  case (Cons r up)
  then obtain ms n where ms: "chain root up = Some ms" and n: "nodeAt root (r # up) = Some n"
    and ns: "ns = ms @ [n]"
    by (auto split: option.splits)
  have "ms \<noteq> []" using chain_length[OF ms] by auto
  with Cons.IH[OF ms] n ns show ?case
    using n by (simp add: join_snoc del: nodeAt.simps)
qed

lemma path_relative:
  "chain root (r # up) = Some ns \<Longrightarrow>
   path root True (r # up) = Some (join ''/'' (map mName (tl ns)))"
proof (induction up arbitrary: r ns)
  case Nil
  then show ?case by (auto simp: mParent_def split: option.splits if_splits)
next
  case (Cons q up)
  from Cons.prems obtain ms n where ms: "chain root (q # up) = Some ms"
    and n: "nodeAt root (r # q # up) = Some n" and ns: "ns = ms @ [n]"
    by (auto split: option.splits simp del: nodeAt.simps)
  have len: "length ms = Suc (Suc (length up))" using chain_length[OF ms] by simp
  then have "tl ms \<noteq> []" by (cases ms) auto
  moreover have "tl ns = tl ms @ [n]" using len ns by (cases ms) auto
  ultimately show ?case
    using Cons.IH[OF ms] n
    by (simp add: join_snoc mParent_def del: nodeAt.simps)
qed

lemma insertAll_mName: "insertAll root ps = Some t \<Longrightarrow> mName t = mName root"
  by (induction ps arbitrary: root) (auto split: option.splits dest: addChild_mName)

text \<open>
  Claim C8, as amended. The full path of a node joins the names of the nodes from the
  root down to it with \<open>/\<close>; the relative path of a node other than the root joins the
  same names without the first; the relative path of the root is the name of the root,
  as its full path is. After \<^verbatim>\<open>setDiff\<close> with a valid diff both paths of the root are
  the path of the working directory.
\<close>

theorem path_of_node:
  "(chain root pos = Some ns \<longrightarrow>
      path root False pos = Some (join ''/'' (map mName ns)) \<and>
      path root True pos = Some (if pos = [] then mName root
                                 else join ''/'' (map mName (tl ns)))) \<and>
   (isValid diff \<and> setDiff m diff = Some (m', sigs) \<longrightarrow>
      Node_path m' (mRootPtr m') False = Some (workdir m) \<and>
      Node_path m' (mRootPtr m') True = Some (workdir m))"
proof -
  have a: "chain root pos = Some ns \<longrightarrow>
      path root False pos = Some (join ''/'' (map mName ns)) \<and>
      path root True pos = Some (if pos = [] then mName root
                                 else join ''/'' (map mName (tl ns)))"
    using path_full[of root pos ns] path_relative[of root _ _ ns]
    by (cases pos) auto
  have b: "isValid diff \<and> setDiff m diff = Some (m', sigs) \<longrightarrow>
      Node_path m' (mRootPtr m') False = Some (workdir m) \<and>
      Node_path m' (mRootPtr m') True = Some (workdir m)"
    by (auto simp: setDiff_def createDiffTree_def Node_path_def mRootPtr_def
        split: option.splits dest: insertAll_mName)
  from a b show ?thesis by blast
qed

text \<open>
  The relative path of the root is not empty: in the example it is \<open>/repo\<close>.
\<close>

theorem root_relative_path_counterexample:
  "setDiff exEmpty exDiff = Some (exModel, [modelAboutToBeReset, modelReset]) \<and>
   Node_path exModel (mRootPtr exModel) True = Some ''/repo'' \<and>
   Node_path exModel (mRootPtr exModel) True \<noteq> Some []"
  using setDiff_example
  by (simp add: Node_path_def mRootPtr_def exModel_def exTree_def)

theorem path_of_node_witness:
  "chain exTree [1, 0] = Some [exTree, Node ''src'' [Node ''a.txt'' [], Node ''b.txt'' []],
      Node ''b.txt'' []] \<and>
   path exTree False [1, 0] = Some ''/repo/src/b.txt'' \<and>
   path exTree True [1, 0] = Some ''src/b.txt'' \<and>
   Node_path exModel (mRootPtr exModel) False = Some ''/repo''"
proof -
  have c: "chain exTree [1, 0] =
      Some [exTree, Node ''src'' [Node ''a.txt'' [], Node ''b.txt'' []], Node ''b.txt'' []]"
    by (simp add: exTree_def)
  have v: "isValid exDiff" by (simp add: exDiff_def)
  from path_of_node[of exTree "[1, 0]"
      "[exTree, Node ''src'' [Node ''a.txt'' [], Node ''b.txt'' []], Node ''b.txt'' []]"
      exDiff exEmpty exModel "[modelAboutToBeReset, modelReset]"] c v setDiff_example
  show ?thesis
    by (simp add: exTree_def exEmpty_def mParent_def)
qed

section \<open>The inclusion state of a node\<close>

lemma checkStateLoop_result:
  "checkStateLoop ix ps cnt sz =
     (if \<exists>p \<in> set ps. ix p = PartiallyStaged then PartiallyChecked
      else if cnt + length (filter (\<lambda>p. ix p = Staged) ps) = 0 then Unchecked
      else if cnt + length (filter (\<lambda>p. ix p = Staged) ps) = sz then Checked
      else PartiallyChecked)"
proof (induction ps arbitrary: cnt)
  case Nil
  then show ?case by simp
next
  case (Cons p ps)
  then show ?case by (cases "ix p") simp_all
qed

text \<open>
  Claim C1. With a valid diff that supports staging, the inclusion state of the node
  of a valid index, whose relative path is \<open>prefix\<close>, is decided by the names of the
  diff that start with \<open>prefix\<close>: undetermined when there is none; otherwise
  \<open>PartiallyChecked\<close> as soon as the index reports one of them as \<open>PartiallyStaged\<close>;
  otherwise \<open>Unchecked\<close> when none of them is \<open>Staged\<close>, \<open>Checked\<close> when all of them
  are, and \<open>PartiallyChecked\<close> in between (\<open>Unstaged\<close>, \<open>Conflicted\<close> and \<open>Disabled\<close>
  are not counted).
\<close>

theorem inclusion_state_query:
  assumes "QModelIndex_isValid ix"
    and "isValid (mDiff m)" and "isStatusDiff (mDiff m)"
    and "Node_path m (node m ix) True = Some prefix"
  shows "data containsPath m ix CheckStateRole =
     Some (if matchingPaths (mDiff m) prefix = [] then QVariant_invalid
           else if \<exists>p \<in> set (matchingPaths (mDiff m) prefix). index (mDiff m) p = PartiallyStaged
             then QVariant_CheckState PartiallyChecked
           else if stagedCount (mDiff m) (matchingPaths (mDiff m) prefix) = 0
             then QVariant_CheckState Unchecked
           else if stagedCount (mDiff m) (matchingPaths (mDiff m) prefix) = length (matchingPaths (mDiff m) prefix)
             then QVariant_CheckState Checked
           else QVariant_CheckState PartiallyChecked)"
  using assms
  by (simp add: data_def stagedCount_def checkStateLoop_result Let_def)

lemma ixSrc_path: "QModelIndex_isValid ixSrc \<and> Node_path exModel (node exModel ixSrc) True = Some ''src''"
  by (simp add: ixSrc_def createIndex_def QModelIndex_isValid_def node_def Node_path_def
      exModel_def exTree_def mParent_def)

theorem inclusion_state_query_witness:
  "QModelIndex_isValid ixSrc \<and> isValid (mDiff exModel) \<and> isStatusDiff (mDiff exModel) \<and>
   Node_path exModel (node exModel ixSrc) True = Some ''src'' \<and>
   matchingPaths (mDiff exModel) ''src'' = [''src/a.txt'', ''src/b.txt''] \<and>
   data containsPath_spec exModel ixSrc CheckStateRole = Some (QVariant_CheckState Unchecked)"
proof -
  have d: "isValid (mDiff exModel)" "isStatusDiff (mDiff exModel)"
    by (simp_all add: exModel_def exDiff_def)
  have mt: "matchingPaths (mDiff exModel) ''src'' = [''src/a.txt'', ''src/b.txt'']"
    by (simp add: matchingPaths_def exModel_def exDiff_def startsWith_def)
  have sc: "stagedCount (mDiff exModel) [''src/a.txt'', ''src/b.txt''] = 0"
    by (simp add: stagedCount_def exModel_def exDiff_def)
  have ps: "index (mDiff exModel) p \<noteq> PartiallyStaged" for p
    by (simp add: exModel_def exDiff_def)
  from inclusion_state_query[OF conjunct1[OF ixSrc_path] d conjunct2[OF ixSrc_path],
      of containsPath_spec]
  have "data containsPath_spec exModel ixSrc CheckStateRole = Some (QVariant_CheckState Unchecked)"
    by (simp add: mt sc ps)
  with d mt ixSrc_path show ?thesis by simp
qed

section \<open>The status summary of a node\<close>

lemma firstSeen_set: "set (firstSeen xs) = set xs"
  by (induction xs) auto

lemma filter_firstSeen: "filter P (firstSeen xs) = firstSeen (filter P xs)"
proof (induction xs)
  case Nil
  then show ?case by simp
next
  case (Cons x xs)
  have swap: "filter P (filter (\<lambda>y. y \<noteq> x) (firstSeen xs)) =
        filter (\<lambda>y. y \<noteq> x) (filter P (firstSeen xs))"
    by (simp add: conj_commute)
  show ?case
  proof (cases "P x")
    case True
    with Cons swap show ?thesis by simp
  next
    case False
    then have "filter (\<lambda>y. y \<noteq> x) (firstSeen (filter P xs)) = firstSeen (filter P xs)"
      by (auto simp: filter_id_conv firstSeen_set)
    with False Cons swap show ?thesis by simp
  qed
qed

lemma firstSeen_distinct: "distinct (firstSeen xs)"
  by (induction xs) (auto simp: firstSeen_set)

lemma statusLoop_result:
  "statusLoop cp prefix es status =
     status @ firstSeen (filter (\<lambda>c. c \<notin> set status)
                (map snd (filter (\<lambda>e. cp (fst e) prefix) es)))"
proof (induction es arbitrary: status)
  case Nil
  then show ?case by simp
next
  case (Cons e es)
  obtain name ch where e: "e = (name, ch)" by (cases e)
  show ?case
  proof (cases "cp name prefix \<and> ch \<notin> set status")
    case True
    have "filter (\<lambda>c. c \<notin> set (status @ [ch])) xs =
          filter (\<lambda>y. y \<noteq> ch) (filter (\<lambda>c. c \<notin> set status) xs)" for xs
      by (induction xs) auto
    with True show ?thesis
      by (simp add: e Cons.IH filter_firstSeen)
  next
    case False
    then show ?thesis
      by (auto simp: e Cons.IH)
  qed
qed

text \<open>
  Claim C9. For a valid index, the status summary is the empty string when the diff is
  invalid; otherwise it is the string of the status characters of the entries that
  \<^verbatim>\<open>containsPath\<close> accepts for the relative path of the node, each character once, in
  the order in which it is first seen. The query is a function of the model and
  returns no new state.
\<close>

theorem status_summary:
  assumes "QModelIndex_isValid ix"
  shows "(\<not> isValid (mDiff m) \<longrightarrow>
            data containsPath m ix StatusRole = Some (QVariant_QString [])) \<and>
         (isValid (mDiff m) \<and> Node_path m (node m ix) True = Some prefix \<longrightarrow>
            data containsPath m ix StatusRole =
              Some (QVariant_QString (firstSeen
                (map snd (filter (\<lambda>e. containsPath (fst e) prefix) (entries (mDiff m))))))) \<and>
         distinct (firstSeen cs) \<and> set (firstSeen cs) = set cs"
  using assms
  by (simp add: data_def statusLoop_result firstSeen_set firstSeen_distinct)

theorem status_summary_witness:
  "QModelIndex_isValid ixSrc \<and>
   data containsPath_spec (exModel\<lparr>mDiff := exDiff\<lparr>isValid := False\<rparr>\<rparr>) ixSrc StatusRole =
     Some (QVariant_QString []) \<and>
   data containsPath_spec exModel QModelIndex_invalid StatusRole = Some QVariant_invalid \<and>
   data containsPath_spec exModel ixSrc StatusRole = Some (QVariant_QString ''M'')"
proof -
  have v: "QModelIndex_isValid ixSrc" using ixSrc_path by simp
  have a: "\<not> isValid (mDiff (exModel\<lparr>mDiff := exDiff\<lparr>isValid := False\<rparr>\<rparr>))" by simp
  have b: "isValid (mDiff exModel)" by (simp add: exModel_def exDiff_def)
  have c: "map snd (filter (\<lambda>e. containsPath_spec (fst e) ''src'') (entries (mDiff exModel))) = ''MM''"
    by (simp add: containsPath_spec_def startsWith_def exModel_def exDiff_def)
  have "data containsPath_spec exModel ixSrc StatusRole = Some (QVariant_QString (firstSeen ''MM''))"
    using status_summary[OF v, of exModel containsPath_spec "''src''" "[]"] b ixSrc_path c
    by simp
  moreover have "data containsPath_spec (exModel\<lparr>mDiff := exDiff\<lparr>isValid := False\<rparr>\<rparr>) ixSrc StatusRole =
     Some (QVariant_QString [])"
    using status_summary[OF v, of "exModel\<lparr>mDiff := exDiff\<lparr>isValid := False\<rparr>\<rparr>" containsPath_spec "[]" "[]"] a
    by simp
  moreover have "data containsPath_spec exModel QModelIndex_invalid StatusRole = Some QVariant_invalid"
    by (simp add: data_def QModelIndex_invalid_def QModelIndex_isValid_def)
  ultimately show ?thesis using v by simp
qed

section \<open>Toggling a node\<close>

lemma those_map_Some:
  "(\<And>x. x \<in> set xs \<Longrightarrow> f x = Some (g x)) \<Longrightarrow> those (map f xs) = Some (map g xs)"
  by (induction xs) auto

lemma upto_as_upt: "[0 .. int k - 1] = map int [0 ..< k]"
proof (induction k)
  case 0
  then show ?case by simp
next
  case (Suc k)
  have "[0 .. int (Suc k) - 1] = [0 .. int k - 1] @ [int k]"
    using upto_rec2[of 0 "int k"] by simp
  with Suc show ?case by simp
qed

lemma indexOf_nth: "distinct xs \<Longrightarrow> j < length xs \<Longrightarrow> indexOf xs (xs ! j) = int j"
proof (induction xs arbitrary: j)
  case Nil
  then show ?case by simp
next
  case (Cons x xs)
  show ?case
  proof (cases j)
    case 0
    then show ?thesis by simp
  next
    case (Suc j')
    with Cons.prems have "xs ! j' \<noteq> x" "indexOf xs (xs ! j') = int j'"
      using Cons.IH[of j'] by auto
    with Suc show ?thesis by (simp add: Let_def)
  qed
qed

lemma nodeAt_parent:
  "nodeAt root (r # up) = Some n \<Longrightarrow>
   \<exists>p. nodeAt root up = Some p \<and> r < length (mChildren p) \<and> n = mChildren p ! r"
  by (auto split: option.splits if_splits)

lemma path_returns: "nodeAt root pos = Some n \<Longrightarrow> \<exists>s. path root relative pos = Some s"
proof (induction pos arbitrary: n)
  case Nil
  then show ?case by simp
next
  case (Cons r up)
  from nodeAt_parent[OF Cons.prems] obtain p where p: "nodeAt root up = Some p"
    by blast
  from Cons.IH[OF p] obtain s where "path root relative up = Some s"
    by blast
  with Cons.prems show ?case
    by (simp del: nodeAt.simps)
qed

lemma children_ptrs_index:
  assumes "q < k"
  shows "indexOf (map (\<lambda>r. Some (r # gp)) [0 ..< k]) (Some (q # gp)) = int q"
proof -
  let ?cs = "map (\<lambda>r. Some (r # gp)) [0 ..< k]"
  have d: "distinct ?cs" by (simp add: distinct_map inj_on_def)
  have "?cs ! q = Some (q # gp)" using assms by simp
  with indexOf_nth[OF d, of q] assms show ?thesis by simp
qed

lemma parent_of_node:
  assumes root: "mRoot m = Some root" and nd: "node m ix = Some pos"
    and n: "nodeAt root pos = Some n"
  shows "parent m ix = Some (parentIndex pos)"
proof (cases pos)
  case Nil
  with root nd n show ?thesis
    by (simp add: parent_def Node_parent_def deref_def mParent_def parentIndex_def)
next
  case (Cons r up)
  note pos = Cons
  from nodeAt_parent[OF n[unfolded pos]] obtain p where
    p: "nodeAt root up = Some p" and r: "r < length (mChildren p)"
    by blast
  have np: "Node_parent m (node m ix) = Some (Some up)"
    using root nd n pos by (simp add: Node_parent_def deref_def mParent_def)
  show ?thesis
  proof (cases up)
    case Nil
    with np root pos show ?thesis
      by (simp add: parent_def mRootPtr_def parentIndex_def)
  next
    case (Cons q gp)
    from nodeAt_parent[OF p[unfolded Cons]] obtain g where
      g: "nodeAt root gp = Some g" and q: "q < length (mChildren g)"
      by blast
    have a: "Node_parent m (Some up) = Some (Some gp)"
      using root p Cons by (simp add: Node_parent_def deref_def mParent_def)
    have b: "Node_children m (Some gp) =
             Some (map (\<lambda>r. Some (r # gp)) [0 ..< length (mChildren g)])"
      using root g by (simp add: Node_children_def deref_def)
    have "parent m ix =
          Some (createIndex (indexOf (map (\<lambda>r. Some (r # gp)) [0 ..< length (mChildren g)])
                               (Some up)) 0 (Some up))"
      using np a b root Cons by (simp add: parent_def mRootPtr_def)
    with children_ptrs_index[OF q, of gp] pos Cons show ?thesis
      by (simp add: parentIndex_def)
  qed
qed

lemma parentIndex_node:
  "mRoot m = Some root \<Longrightarrow> node m (parentIndex (r # q # up)) = Some (q # up)"
  by (simp add: parentIndex_def node_def createIndex_def QModelIndex_isValid_def)

lemma emitParents_result:
  assumes root: "mRoot m = Some root"
  shows "nodeAt root pos = Some n \<Longrightarrow>
         emitParents m (parentIndex pos) role =
           Some (map (\<lambda>a. dataChanged a a [role]) (ancestorIndexes pos))"
proof (induction pos arbitrary: n rule: ancestorIndexes.induct)
  case 1
  then show ?case
    by (subst emitParents.simps)
      (simp add: parentIndex_def QModelIndex_invalid_def QModelIndex_isValid_def)
next
  case (2 r)
  then show ?case
    by (subst emitParents.simps)
      (simp add: parentIndex_def QModelIndex_invalid_def QModelIndex_isValid_def)
next
  case (3 r q up)
  from nodeAt_parent[OF "3.prems"] obtain p where p: "nodeAt root (q # up) = Some p"
    by blast
  have v: "QModelIndex_isValid (parentIndex (r # q # up))"
    by (simp add: parentIndex_def createIndex_def QModelIndex_isValid_def)
  have par: "parent m (parentIndex (r # q # up)) = Some (parentIndex (q # up))"
    using parent_of_node[OF root parentIndex_node[OF root] p] .
  have ix: "parentIndex (r # q # up) = createIndex (int q) 0 (Some (q # up))"
    by (simp add: parentIndex_def)
  show ?case
    by (subst emitParents.simps) (simp add: v par "3.IH"[OF p] ix[symmetric])
qed

lemma emitChildren_result:
  assumes root: "mRoot m = Some root" and nd: "node m ix = Some pos"
    and n: "nodeAt root pos = Some n" and valid: "isValid (mDiff m)"
  shows "emitChildren m ix role =
           Some (map (\<lambda>a. dataChanged a a [role]) (childIndexes pos n))"
proof -
  let ?k = "length (mChildren n)"
  have hc: "hasChildren m ix = Some (0 < ?k)"
    using root nd n by (simp add: hasChildren_def Node_hasChildren_def deref_def)
  have ch: "Node_children m (node m ix) = Some (map (\<lambda>r. Some (r # pos)) [0 ..< ?k])"
    using root nd n by (simp add: Node_children_def deref_def)
  have rc: "rowCount m ix = Some (int ?k)"
    using valid ch by (simp add: rowCount_def)
  show ?thesis
  proof (cases "0 < ?k")
    case False
    with hc show ?thesis by (simp add: emitChildren_def childIndexes_def)
  next
    case True
    have each: "map_option (\<lambda>child. dataChanged child child [role]) (indexAt m r 0 ix) =
                Some (dataChanged (createIndex r 0 (Some (nat r # pos)))
                        (createIndex r 0 (Some (nat r # pos))) [role])"
      if "r \<in> set [0 .. int ?k - 1]" for r
    proof -
      from that have "0 \<le> r" "r < int ?k" by simp_all
      then have "nat r < ?k" by linarith
      with \<open>0 \<le> r\<close> \<open>r < int ?k\<close> rc ch show ?thesis
        by (simp add: indexAt_def columnCount_def)
    qed
    have "emitChildren m ix role =
          Some (map (\<lambda>r. dataChanged (createIndex r 0 (Some (nat r # pos)))
                        (createIndex r 0 (Some (nat r # pos))) [role]) [0 .. int ?k - 1])"
      using hc True rc those_map_Some[of "[0 .. int ?k - 1]", OF each]
      by (simp add: emitChildren_def)
    then show ?thesis
      by (simp add: upto_as_upt childIndexes_def comp_def)
  qed
qed

lemma stageFiles_frame:
  "mRoot (stageFiles setStaged m files b) = mRoot m"
  "isValid (mDiff (stageFiles setStaged m files b)) = isValid (mDiff m)"
  "node (stageFiles setStaged m files b) ix = node m ix"
  by (simp_all add: stageFiles_def node_def mRootPtr_def)

lemma setData_toggle:
  assumes root: "mRoot m = Some root" and nd: "node m ix = Some pos"
    and n: "nodeAt root pos = Some n" and valid: "isValid (mDiff m)"
    and pre: "Node_path m (node m ix) True = Some prefix"
  shows "setData setStaged m ix v CheckStateRole ign =
     Some (True,
           map stateChanged (childIndexes pos n) @ map stateChanged (ancestorIndexes pos) @
             [stateChanged ix, checkStateChanged ix (toInt v)],
           if ign then m else stageFiles setStaged m (matchingPaths (mDiff m) prefix) (toBool v))"
proof -
  let ?m' = "if ign then m else stageFiles setStaged m (matchingPaths (mDiff m) prefix) (toBool v)"
  have root': "mRoot ?m' = Some root" and nd': "node ?m' ix = Some pos"
    and valid': "isValid (mDiff ?m')"
    using root nd valid by (simp_all add: stageFiles_frame)
  have c: "emitChildren ?m' ix CheckStateRole =
           Some (map (\<lambda>a. dataChanged a a [CheckStateRole]) (childIndexes pos n))"
    using emitChildren_result[OF root' nd' n valid'] .
  have p: "parent ?m' ix = Some (parentIndex pos)"
    using parent_of_node[OF root' nd' n] .
  have a: "emitParents ?m' (parentIndex pos) CheckStateRole =
           Some (map (\<lambda>a. dataChanged a a [CheckStateRole]) (ancestorIndexes pos))"
    using emitParents_result[OF root' n] .
  show ?thesis
  proof (cases ign)
    case True
    with c p a pre show ?thesis
      by (simp add: setData_def Let_def stateChanged_def)
  next
    case False
    with c p a pre show ?thesis
      by (simp add: setData_def Let_def stateChanged_def)
  qed
qed

text \<open>
  Claim C6. A toggle of the node at position \<open>pos\<close> (a valid index that points to it,
  or the invalid index for the root), with a valid diff attached, returns \<^verbatim>\<open>true\<close> and
  has emitted exactly: the state-changed notification of each direct child in row
  order, then that of each strict ancestor below the root, walking upward, then that
  of the node itself, then one \<^verbatim>\<open>checkStateChanged\<close> with the index and the value
  requested.
\<close>

theorem toggle_notifications:
  assumes "mRoot m = Some root" and "node m ix = Some pos" and "nodeAt root pos = Some n"
    and "isValid (mDiff m)"
  shows "\<exists>m'. setData setStaged m ix v CheckStateRole ign =
     Some (True,
           map stateChanged (childIndexes pos n) @ map stateChanged (ancestorIndexes pos) @
             [stateChanged ix, checkStateChanged ix (toInt v)],
           m')"
proof -
  from path_returns[OF assms(3), of True] assms(1,2)
  obtain prefix where "Node_path m (node m ix) True = Some prefix"
    by (auto simp: Node_path_def)
  from setData_toggle[OF assms this] show ?thesis
    by blast
qed

lemma exModel_facts:
  "mRoot exModel = Some exTree" "isValid (mDiff exModel)"
  "node exModel ixSrc = Some [0]" "node exModel ixA = Some [0, 0]"
  "nodeAt exTree [0] = Some (Node ''src'' [Node ''a.txt'' [], Node ''b.txt'' []])"
  "nodeAt exTree [0, 0] = Some (Node ''a.txt'' [])"
  by (simp_all add: exModel_def exDiff_def exTree_def ixSrc_def ixA_def node_def
      createIndex_def QModelIndex_isValid_def)

theorem toggle_notifications_witness:
  "(\<exists>m'. setData setStaged_sets exModel ixSrc checked CheckStateRole False =
     Some (True,
           [stateChanged (createIndex 0 0 (Some [0, 0])),
            stateChanged (createIndex 1 0 (Some [1, 0])),
            stateChanged ixSrc, checkStateChanged ixSrc 2], m')) \<and>
   (\<exists>m'. setData setStaged_sets exModel ixA checked CheckStateRole False =
     Some (True, [stateChanged ixSrc, stateChanged ixA, checkStateChanged ixA 2], m'))"
  using toggle_notifications[OF exModel_facts(1,3,5,2), of setStaged_sets checked False]
    toggle_notifications[OF exModel_facts(1,4,6,2), of setStaged_sets checked False]
  by (simp add: childIndexes_def checked_def ixSrc_def)

text \<open>
  Claim C3, as amended. The toggle does not read what \<open>setStaged\<close> returns: whatever
  \<open>setStaged\<close> is, also one that fails, the toggle returns \<^verbatim>\<open>true\<close> and has emitted the
  state-changed notifications and the \<^verbatim>\<open>checkStateChanged\<close> signal of a toggle. The
  state it leaves is the one with the index that \<open>setStaged\<close> left: it is the state
  before the toggle when \<open>setStaged\<close> left the index as it was.
\<close>

theorem toggle_ignores_setStaged_result:
  assumes "mRoot m = Some root" and "node m ix = Some pos" and "nodeAt root pos = Some n"
    and "isValid (mDiff m)" and "Node_path m (node m ix) True = Some prefix"
  shows "setData setStaged m ix v CheckStateRole False =
     Some (True,
           map stateChanged (childIndexes pos n) @ map stateChanged (ancestorIndexes pos) @
             [stateChanged ix, checkStateChanged ix (toInt v)],
           stageFiles setStaged m (matchingPaths (mDiff m) prefix) (toBool v)) \<and>
     (snd (setStaged (matchingPaths (mDiff m) prefix) (toBool v) (index (mDiff m))) =
        index (mDiff m) \<longrightarrow>
      stageFiles setStaged m (matchingPaths (mDiff m) prefix) (toBool v) = m)"
  using setData_toggle[OF assms, of setStaged v False]
  by (simp add: stageFiles_def)

lemma exModel_paths:
  "Node_path exModel (node exModel ixA) True = Some ''src/a.txt''"
  by (simp add: exModel_facts Node_path_def exTree_def mParent_def)

text \<open>
  With a \<open>setStaged\<close> that fails, the toggle of \<open>src/a.txt\<close> still returns \<^verbatim>\<open>true\<close> and
  emits its three signals.
\<close>

theorem failed_setStaged_counterexample:
  "fst (setStaged_fails [''src/a.txt''] True (index (mDiff exModel))) = False \<and>
   setData setStaged_fails exModel ixA checked CheckStateRole False =
     Some (True, [stateChanged ixSrc, stateChanged ixA, checkStateChanged ixA 2], exModel)"
proof -
  have "stageFiles setStaged_fails exModel files b = exModel" for files b
    by (simp add: stageFiles_def setStaged_fails_def)
  with setData_toggle[OF exModel_facts(1,4,6,2) exModel_paths, of setStaged_fails checked False]
  show ?thesis
    by (simp add: childIndexes_def checked_def ixSrc_def setStaged_fails_def)
qed

theorem toggle_ignores_setStaged_result_witness:
  "setData setStaged_fails exModel ixA checked CheckStateRole False =
     Some (True, [stateChanged ixSrc, stateChanged ixA, checkStateChanged ixA 2],
           stageFiles setStaged_fails exModel (matchingPaths (mDiff exModel) ''src/a.txt'') True) \<and>
   stageFiles setStaged_fails exModel (matchingPaths (mDiff exModel) ''src/a.txt'') True = exModel"
  using toggle_ignores_setStaged_result[OF exModel_facts(1,4,6,2) exModel_paths,
      of setStaged_fails checked]
  by (simp add: childIndexes_def checked_def ixSrc_def setStaged_fails_def)

text \<open>
  Claim C5. With a diff that is invalid or is not a status diff, the inclusion-state
  query returns the invalid variant. The toggle is carried out all the same:
  \<^verbatim>\<open>setData\<close> has no test of the diff. With a diff that is valid but not a status
  diff it passes the matching files to \<open>setStaged\<close>, emits the notifications of a
  toggle and returns \<^verbatim>\<open>true\<close>.
\<close>

theorem unsupported_diff_toggle:
  assumes "mRoot m = Some root" and "node m ix = Some pos" and "nodeAt root pos = Some n"
    and "isValid (mDiff m)" and "Node_path m (node m ix) True = Some prefix"
    and "\<not> isStatusDiff (mDiff m)"
  shows "(\<not> isValid (mDiff m0) \<or> \<not> isStatusDiff (mDiff m0) \<longrightarrow>
            data containsPath m0 ix0 CheckStateRole = Some QVariant_invalid) \<and>
     data containsPath m ix CheckStateRole = Some QVariant_invalid \<and>
     setData setStaged m ix v CheckStateRole False =
     Some (True,
           map stateChanged (childIndexes pos n) @ map stateChanged (ancestorIndexes pos) @
             [stateChanged ix, checkStateChanged ix (toInt v)],
           stageFiles setStaged m (matchingPaths (mDiff m) prefix) (toBool v))"
proof -
  have q: "data containsPath m' ix' CheckStateRole = Some QVariant_invalid"
    if "\<not> isValid (mDiff m') \<or> \<not> isStatusDiff (mDiff m')" for m' ix'
    using that by (auto simp: data_def)
  from q[of m0 ix0] q[of m ix] assms(6)
    setData_toggle[OF assms(1-5), of setStaged v False]
  show ?thesis by simp
qed

lemma exCommitModel_facts:
  "mRoot exCommitModel = Some exTree" "isValid (mDiff exCommitModel)"
  "\<not> isStatusDiff (mDiff exCommitModel)"
  "node exCommitModel ixA = Some [0, 0]"
  "Node_path exCommitModel (node exCommitModel ixA) True = Some ''src/a.txt''"
  by (simp_all add: exCommitModel_def exModel_def exDiff_def exTree_def ixA_def node_def
      createIndex_def QModelIndex_isValid_def Node_path_def mParent_def)

theorem unsupported_diff_toggle_witness:
  "\<not> isStatusDiff (mDiff exCommitModel) \<and>
   data containsPath_spec exEmpty ixA CheckStateRole = Some QVariant_invalid \<and>
   data containsPath_spec exCommitModel ixA CheckStateRole = Some QVariant_invalid \<and>
   setData setStaged_sets exCommitModel ixA checked CheckStateRole False =
     Some (True, [stateChanged ixSrc, stateChanged ixA, checkStateChanged ixA 2],
           stageFiles setStaged_sets exCommitModel [''src/a.txt''] True) \<and>
   index (mDiff exCommitModel) ''src/a.txt'' = Unstaged \<and>
   index (mDiff (stageFiles setStaged_sets exCommitModel [''src/a.txt''] True)) ''src/a.txt'' = Staged"
proof -
  have mp: "matchingPaths (mDiff exCommitModel) ''src/a.txt'' = [''src/a.txt'']"
    by (simp add: matchingPaths_def exCommitModel_def exDiff_def startsWith_def)
  have ix: "index (mDiff exCommitModel) ''src/a.txt'' = Unstaged"
    "index (mDiff (stageFiles setStaged_sets exCommitModel [''src/a.txt''] True)) ''src/a.txt'' = Staged"
    by (simp_all add: stageFiles_def setStaged_sets_def exCommitModel_def exDiff_def)
  have e: "\<not> isValid (mDiff exEmpty)"
    by (simp add: exEmpty_def)
  from unsupported_diff_toggle[OF exCommitModel_facts(1,4) exModel_facts(6)
      exCommitModel_facts(2,5,3),
      where ?m0.0 = exEmpty and ?ix0.0 = ixA and containsPath = containsPath_spec
        and setStaged = setStaged_sets and v = checked]
  show ?thesis
    using exCommitModel_facts(3) ix e
    by (simp add: mp childIndexes_def checked_def ixSrc_def)
qed

lemma prefixModel_built:
  "setDiff exEmpty prefixDiff = Some (prefixModel, [modelAboutToBeReset, modelReset])"
  by (simp add: setDiff_def createDiffTree_def exEmpty_def prefixDiff_def prefixModel_def
      addChild.simps)

text \<open>
  Claim C2. The selection of \<^verbatim>\<open>data\<close> and \<^verbatim>\<open>setData\<close> is \<^verbatim>\<open>startsWith\<close> on strings:
  for the folder \<open>ab\<close> it selects \<open>abc/x\<close> too. The folder \<open>ab\<close>, whose only file is
  staged, is reported as \<open>PartiallyChecked\<close>, and a toggle of \<open>ab\<close> stages \<open>abc/x\<close>.
\<close>

theorem prefix_match_not_segment_safe:
  "Node_path prefixModel (node prefixModel ixAb) True = Some ''ab'' \<and>
   matchingPaths (mDiff prefixModel) ''ab'' = [''ab/x'', ''abc/x''] \<and>
   data containsPath prefixModel ixAb CheckStateRole =
     Some (QVariant_CheckState PartiallyChecked) \<and>
   map_option (\<lambda>(ok, sigs, m'). index (mDiff m') ''abc/x'')
     (setData setStaged_sets prefixModel ixAb checked CheckStateRole False) = Some Staged"
proof -
  have f: "mRoot prefixModel =
             Some (Node ''/repo'' [Node ''ab'' [Node ''x'' []], Node ''abc'' [Node ''x'' []]])"
    "isValid (mDiff prefixModel)" "isStatusDiff (mDiff prefixModel)"
    "node prefixModel ixAb = Some [0]" "QModelIndex_isValid ixAb"
    by (simp_all add: prefixModel_def prefixDiff_def ixAb_def node_def createIndex_def
        QModelIndex_isValid_def)
  have n: "nodeAt (Node ''/repo'' [Node ''ab'' [Node ''x'' []], Node ''abc'' [Node ''x'' []]]) [0] =
           Some (Node ''ab'' [Node ''x'' []])"
    by simp
  have p: "Node_path prefixModel (node prefixModel ixAb) True = Some ''ab''"
    by (simp add: f Node_path_def mParent_def)
  have mp: "matchingPaths (mDiff prefixModel) ''ab'' = [''ab/x'', ''abc/x'']"
    by (simp add: matchingPaths_def prefixModel_def prefixDiff_def startsWith_def)
  have d: "data containsPath prefixModel ixAb CheckStateRole =
     Some (QVariant_CheckState PartiallyChecked)"
    using f p mp by (simp add: data_def prefixModel_def prefixDiff_def)
  have "index (mDiff (stageFiles setStaged_sets prefixModel [''ab/x'', ''abc/x''] True)) ''abc/x'' = Staged"
    by (simp add: stageFiles_def setStaged_sets_def)
  with setData_toggle[OF f(1,4) n f(2) p, of setStaged_sets checked False]
  have "map_option (\<lambda>(ok, sigs, m'). index (mDiff m') ''abc/x'')
     (setData setStaged_sets prefixModel ixAb checked CheckStateRole False) = Some Staged"
    by (simp add: mp checked_def)
  with p mp d show ?thesis by simp
qed

theorem prefix_match_not_segment_safe_witness:
  "setDiff exEmpty prefixDiff = Some (prefixModel, [modelAboutToBeReset, modelReset]) \<and>
   index (mDiff prefixModel) ''ab/x'' = Staged \<and>
   index (mDiff prefixModel) ''abc/x'' = Unstaged \<and>
   \<not> containsPath_spec ''abc/x'' ''ab'' \<and>
   data containsPath_spec prefixModel ixAb CheckStateRole =
     Some (QVariant_CheckState PartiallyChecked)"
  using prefix_match_not_segment_safe[of containsPath_spec] prefixModel_built
  by (simp add: prefixModel_def prefixDiff_def containsPath_spec_def startsWith_def)

end
